theory Spec2Isabelle
  imports Main
begin

section \<open>The GitHub adapter of sails-github (lib/adapter.js)\<close>

text \<open>
  The adapter has three functions with logic: \<^verbatim>\<open>parseLinks\<close> (the Link header),
  \<^verbatim>\<open>getRequest\<close> (one GET per page, following \<^verbatim>\<open>rel="next"\<close>) and
  \<^verbatim>\<open>route\<close> (the choice of a path template by the number of arguments).

  JavaScript strings are modelled as \<^typ>\<open>string\<close>. Node decodes header bytes as
  Latin-1, so every character of a header is one 8-bit \<^typ>\<open>char\<close>; the code units
  above \<^verbatim>\<open>0xFF\<close> that \<^verbatim>\<open>trim\<close> and the regular expression dot treat
  specially (U+1680, U+2000..U+200A, U+2028, U+2029, U+202F, U+205F, U+3000, U+FEFF)
  are outside this type.
\<close>

subsection \<open>JavaScript values\<close>

text \<open>
  The values the adapter handles. \<open>JNum\<close> holds the integer-valued numbers (the page
  counter, a status code, an array length); fractional numbers play no role in the
  source. Its range is that of the integers JavaScript prints digit by digit: below
  \<open>2^53\<close> in magnitude every integer is a number, and from \<open>10^21\<close> on JavaScript
  prints a number with an exponent, which \<open>to_string\<close> does not model. The credential
  and the path variables are documented as strings. A plain object with a
  \<^verbatim>\<open>toString\<close> of its own is not modelled either. \<open>JFun\<close> is a callable, identified by its source text (what
  \<^verbatim>\<open>Function.prototype.toString\<close> returns); \<open>JErr name message\<close> is an
  \<^verbatim>\<open>Error\<close> object; \<open>JObj\<close> is a plain object.
\<close>

datatype jsval =
    JUndefined
  | JNull
  | JBool bool
  | JNum int
  | JStr string
  | JArr "jsval list"
  | JObj "(string \<times> jsval) list"
  | JFun string
  | JErr string string

text \<open>ToBoolean: what \<^verbatim>\<open>!x\<close>, \<^verbatim>\<open>x && y\<close> and \<^verbatim>\<open>if (x)\<close> test.\<close>

fun truthy :: "jsval \<Rightarrow> bool" where
  "truthy JUndefined = False"
| "truthy JNull = False"
| "truthy (JBool b) = b"
| "truthy (JNum n) = (n \<noteq> 0)"
| "truthy (JStr s) = (s \<noteq> [])"
| "truthy (JArr xs) = True"
| "truthy (JObj kvs) = True"
| "truthy (JFun src) = True"
| "truthy (JErr name msg) = True"

subsection \<open>Strings\<close>

text \<open>Decimal digits of a natural number, as number-to-string conversion prints them.\<close>

fun string_of_nat :: "nat \<Rightarrow> string" where
  "string_of_nat n =
     (if n < 10 then [''0123456789'' ! n]
      else string_of_nat (n div 10) @ [''0123456789'' ! (n mod 10)])"

definition string_of_int :: "int \<Rightarrow> string" where
  "string_of_int i = (if i < 0 then CHR ''-'' # string_of_nat (nat (- i)) else string_of_nat (nat i))"

text \<open>\<^verbatim>\<open>Array.prototype.join\<close> on strings: the separator between the elements.\<close>

fun join_with :: "string \<Rightarrow> string list \<Rightarrow> string" where
  "join_with sep [] = []"
| "join_with sep [s] = s"
| "join_with sep (s # t # ss) = s @ sep @ join_with sep (t # ss)"

text \<open>
  ToString, as string concatenation and \<^verbatim>\<open>join\<close> apply it. An array prints as
  its elements joined by a comma, where \<^verbatim>\<open>null\<close> and \<^verbatim>\<open>undefined\<close>
  elements print as the empty string.
\<close>

fun to_string :: "jsval \<Rightarrow> string" where
  "to_string JUndefined = ''undefined''"
| "to_string JNull = ''null''"
| "to_string (JBool b) = (if b then ''true'' else ''false'')"
| "to_string (JNum n) = string_of_int n"
| "to_string (JStr s) = s"
| "to_string (JArr xs) =
     join_with '','' (map (\<lambda>x. if x = JUndefined \<or> x = JNull then [] else to_string x) xs)"
| "to_string (JObj kvs) = ''[object Object]''"
| "to_string (JFun src) = src"
| "to_string (JErr name msg) = (if msg = [] then name else if name = [] then msg else name @ '': '' @ msg)"

text \<open>\<^verbatim>\<open>arr.join(sep)\<close> on an array of values.\<close>

definition js_join :: "string \<Rightarrow> jsval list \<Rightarrow> string" where
  "js_join sep xs =
     join_with sep (map (\<lambda>x. if x = JUndefined \<or> x = JNull then [] else to_string x) xs)"

text \<open>
  \<^verbatim>\<open>s.split(c)\<close> for a one-character separator: the pieces between the
  separators, so the result is never empty (\<^verbatim>\<open>"".split(",")\<close> is \<^verbatim>\<open>[""]\<close>).
\<close>

fun split_on :: "char \<Rightarrow> string \<Rightarrow> string list" where
  "split_on c [] = [[]]"
| "split_on c (x # xs) =
     (if x = c then [] # split_on c xs
      else (case split_on c xs of
              [] \<Rightarrow> [[x]]
            | w # ws \<Rightarrow> (x # w) # ws))"

text \<open>
  \<^verbatim>\<open>s.trim()\<close>: white space and line terminators are removed at both ends. Among
  the 8-bit characters these are tab, line feed, vertical tab, form feed, carriage
  return, space and the no-break space.
\<close>

definition is_space :: "char \<Rightarrow> bool" where
  "is_space c = (c = CHR 0x09 \<or> c = CHR 0x0A \<or> c = CHR 0x0B \<or> c = CHR 0x0C \<or> c = CHR 0x0D
                 \<or> c = CHR 0x20 \<or> c = CHR 0xA0)"

definition trim :: "string \<Rightarrow> string" where
  "trim s = rev (dropWhile is_space (rev (dropWhile is_space s)))"

text \<open>\<^verbatim>\<open>s.indexOf(pat)\<close>: the first position where \<open>pat\<close> starts, or \<open>-1\<close>.\<close>

fun starts_with :: "string \<Rightarrow> string \<Rightarrow> bool" where
  "starts_with s [] = True"
| "starts_with [] (p # ps) = False"
| "starts_with (c # cs) (p # ps) = (c = p \<and> starts_with cs ps)"

fun indexOf :: "string \<Rightarrow> string \<Rightarrow> int" where
  "indexOf [] pat = (if pat = [] then 0 else - 1)"
| "indexOf (c # cs) pat =
     (if starts_with (c # cs) pat then 0
      else (let r = indexOf cs pat in if r = - 1 then - 1 else r + 1))"

subsection \<open>The two regular expressions of \<^verbatim>\<open>parseLinks\<close>\<close>

text \<open>
  Without flags, the dot of a regular expression matches every character but a line
  terminator (line feed and carriage return among the 8-bit characters), and the star
  is greedy. So \<^verbatim>\<open>(.*)d\<close> for a character \<open>d\<close> that is no line terminator,
  tried at the start of \<open>s\<close>, matches iff \<open>d\<close> occurs in \<open>s\<close> before the first line
  terminator, and the group captures the text before the last such \<open>d\<close>.
\<close>

definition line_terminator :: "char \<Rightarrow> bool" where
  "line_terminator c = (c = CHR 0x0A \<or> c = CHR 0x0D)"

definition greedy_until :: "char \<Rightarrow> string \<Rightarrow> string option" where
  "greedy_until d s =
     (let line = takeWhile (\<lambda>c. \<not> line_terminator c) s
      in if d \<in> set line
         then Some (rev (tl (dropWhile (\<lambda>c. c \<noteq> d) (rev line))))
         else None)"

fun drop_prefix :: "string \<Rightarrow> string \<Rightarrow> string option" where
  "drop_prefix [] s = Some s"
| "drop_prefix (p # ps) [] = None"
| "drop_prefix (p # ps) (c # cs) = (if p = c then drop_prefix ps cs else None)"

text \<open>
  \<^verbatim>\<open>/rel="(.*)"/.exec(entry)\<close>: \<open>None\<close> is the \<^verbatim>\<open>null\<close> of no match,
  \<open>Some k\<close> a match whose group 1 is \<open>k\<close>. The expression is not anchored: the start
  positions are tried from the left, and the first one where the whole expression
  matches wins.
\<close>

definition rel_open :: string where
  "rel_open = ''rel='' @ [CHR 0x22]"

fun exec_rel :: "string \<Rightarrow> string option" where
  "exec_rel [] = None"
| "exec_rel (c # cs) =
     (case drop_prefix rel_open (c # cs) of
        None \<Rightarrow> exec_rel cs
      | Some t \<Rightarrow>
          (case greedy_until (CHR 0x22) t of
             None \<Rightarrow> exec_rel cs
           | Some k \<Rightarrow> Some k))"

text \<open>\<^verbatim>\<open>/^<(.*)>/.exec(entry)\<close>: anchored at the start of the entry.\<close>

definition exec_source :: "string \<Rightarrow> string option" where
  "exec_source entry =
     (case entry of
        [] \<Rightarrow> None
      | c # t \<Rightarrow> if c = CHR ''<'' then greedy_until (CHR ''>'') t else None)"

subsection \<open>\<^verbatim>\<open>parseLinks\<close>\<close>

text \<open>
  \<^verbatim>\<open>result[key] = source\<close> on an object created by \<^verbatim>\<open>{}\<close>: an own property is
  written, except for the key \<^verbatim>\<open>__proto__\<close>, whose inherited setter ignores a string.
\<close>

definition set_prop :: "(string \<rightharpoonup> string) \<Rightarrow> string \<Rightarrow> string \<Rightarrow> (string \<rightharpoonup> string)" where
  "set_prop result key source = (if key = ''__proto__'' then result else result(key \<mapsto> source))"

text \<open>
  Indexing the \<^verbatim>\<open>null\<close> of a failed match throws a \<^verbatim>\<open>TypeError\<close>. The message
  is the engine's (here the text of current Node versions); nothing in the adapter
  reads it.
\<close>

definition null_index_error :: jsval where
  "null_index_error = JErr ''TypeError'' ''Cannot read properties of null (reading '1')''"

text \<open>The loop of \<^verbatim>\<open>parseLinks\<close> over the entries, \<open>result\<close> being the object built so far.\<close>

fun parse_entries :: "string list \<Rightarrow> (string \<rightharpoonup> string) \<Rightarrow> jsval + (string \<rightharpoonup> string)" where
  "parse_entries [] result = Inr result"
| "parse_entries (e # es) result =
     (let entry = trim e in
      case exec_rel entry of
        None \<Rightarrow> Inl null_index_error
      | Some key \<Rightarrow>
          (case exec_source entry of
             None \<Rightarrow> Inl null_index_error
           | Some source \<Rightarrow> parse_entries es (set_prop result key source)))"

definition parseLinks :: "string \<Rightarrow> jsval + (string \<rightharpoonup> string)" where
  "parseLinks linksHeader = parse_entries (split_on (CHR '','') linksHeader) Map.empty"

subsection \<open>The network and what a call does\<close>

text \<open>
  \<^verbatim>\<open>request(opts, handler)\<close> sends one GET and later calls the handler once with
  \<^verbatim>\<open>(err, res, body)\<close>. A reply is either a transport error (an \<^verbatim>\<open>Error\<close>
  object, given by its name and message) or a response with its status code, its
  \<^verbatim>\<open>Link\<close> header (\<open>None\<close> when \<^verbatim>\<open>res.headers.link\<close> is undefined) and its
  body. The network is the list of the replies to the requests in the order they are
  sent; when the list is used up, the request stays unanswered.
\<close>

datatype reply =
    TransportError string string
  | Response int "string option" string

record opts =
  url :: string
  http_method :: string
  headers :: "(string \<times> string) list"

text \<open>
  What is observable of a call, in order: the requests sent, the invocations of the
  caller's callback with their arguments, and an exception that nothing catches.
  The caller's callback is taken to return normally.
\<close>

datatype event =
    Request opts
  | Invoke jsval "jsval list"
  | Uncaught jsval

text \<open>\<^verbatim>\<open>cb(a, b)\<close> for a value \<open>cb\<close> of the caller: calling a non-function throws.\<close>

definition not_a_function :: jsval where
  "not_a_function = JErr ''TypeError'' ''cb is not a function''"

fun call :: "jsval \<Rightarrow> jsval list \<Rightarrow> event list" where
  "call (JFun src) args = [Invoke (JFun src) args]"
| "call v args = [Uncaught not_a_function]"

text \<open>The \<open>i\<close>-th parameter of a function called with \<open>args\<close>: undefined when not passed.\<close>

definition arg :: "nat \<Rightarrow> jsval list \<Rightarrow> jsval" where
  "arg i args = (if i < length args then args ! i else JUndefined)"

subsection \<open>\<^verbatim>\<open>getRequest\<close>\<close>

definition endpoint :: string where
  "endpoint = ''https://api.github.com/''"

text \<open>\<^verbatim>\<open>page = page || 1\<close>: an absent page, and the falsy page 0, become 1.\<close>

definition page_or_1 :: "nat option \<Rightarrow> nat" where
  "page_or_1 page = (case page of None \<Rightarrow> 1 | Some n \<Rightarrow> if n = 0 then 1 else n)"

text \<open>The \<^verbatim>\<open>url\<close> of the request (lines 53 and 54).\<close>

definition request_url :: "string \<Rightarrow> jsval \<Rightarrow> nat option \<Rightarrow> string" where
  "request_url meth token page =
     (if indexOf meth ''http'' \<noteq> - 1 then meth
      else endpoint @ meth @ ''?access_token='' @ to_string token
           @ ''&per_page=100&page='' @ string_of_nat (page_or_1 page))"

text \<open>The \<^verbatim>\<open>opts\<close> of the request (lines 56 to 63).\<close>

definition request_opts :: "string \<Rightarrow> opts" where
  "request_opts u =
     \<lparr> url = u,
       http_method = ''get'',
       headers = [(''User-Agent'', ''Sails GitHub Adapter''), (''Accept'', ''application/json'')] \<rparr>"

text \<open>
  \<^verbatim>\<open>data.concat(next)\<close>: an array appends the elements of an array and any other
  value as one element; a string appends the argument's string; \<^verbatim>\<open>null\<close> and
  \<^verbatim>\<open>undefined\<close> have no properties, every other parsed value has no
  \<^verbatim>\<open>concat\<close> method, and the call throws (the messages are the engine's).
\<close>

definition no_concat :: jsval where
  "no_concat = JErr ''TypeError'' ''data.concat is not a function''"

fun js_concat :: "jsval \<Rightarrow> jsval \<Rightarrow> jsval + jsval" where
  "js_concat (JArr xs) (JArr ys) = Inr (JArr (xs @ ys))"
| "js_concat (JArr xs) v = Inr (JArr (xs @ [v]))"
| "js_concat (JStr s) v = Inr (JStr (s @ to_string v))"
| "js_concat JNull v =
     Inl (JErr ''TypeError'' ''Cannot read properties of null (reading 'concat')'')"
| "js_concat JUndefined v =
     Inl (JErr ''TypeError'' ''Cannot read properties of undefined (reading 'concat')'')"
| "js_concat d v = Inl no_concat"

text \<open>
  \<^verbatim>\<open>var links = res.headers.link && parseLinks(res.headers.link)\<close> followed by the
  test \<^verbatim>\<open>links && links.next\<close>: \<open>Inl\<close> when \<^verbatim>\<open>parseLinks\<close> throws,
  \<open>Inr (Some u)\<close> when the test holds with \<^verbatim>\<open>links.next\<close> being \<open>u\<close>, and
  \<open>Inr None\<close> when it fails. An absent and an empty header are falsy, so
  \<^verbatim>\<open>parseLinks\<close> is not called for them.
\<close>

definition next_link :: "string option \<Rightarrow> jsval + string option" where
  "next_link link =
     (case link of
        None \<Rightarrow> Inr None
      | Some h \<Rightarrow>
          if h = [] then Inr None
          else (case parseLinks h of
                  Inl e \<Rightarrow> Inl e
                | Inr links \<Rightarrow>
                    (case links ''next'' of
                       None \<Rightarrow> Inr None
                     | Some u \<Rightarrow> if u = [] then Inr None else Inr (Some u))))"

text \<open>
  The callback of the recursive call (lines 83 to 86) reads \<^verbatim>\<open>if (err) return cb(e)\<close>.
  No variable \<^verbatim>\<open>e\<close> is in scope there (the \<^verbatim>\<open>e\<close> of the \<^verbatim>\<open>catch\<close> clause
  above is local to that clause), so evaluating \<^verbatim>\<open>e\<close> throws a
  \<^verbatim>\<open>ReferenceError\<close> before \<^verbatim>\<open>cb\<close> is called.
\<close>

definition e_not_defined :: jsval where
  "e_not_defined = JErr ''ReferenceError'' ''e is not defined''"

text \<open>
  \<^verbatim>\<open>getRequest(method, token, cb, page)\<close>. \<open>parse\<close> is \<^verbatim>\<open>JSON.parse\<close>:
  \<open>Inl e\<close> when it throws \<open>e\<close>, \<open>Inr data\<close> when it returns. \<open>cb\<close> is what calling the
  callback does; the result lists the events from the call on. Every call of
  \<^verbatim>\<open>cb\<close> in the source is the last thing its handler does and stands in no
  \<^verbatim>\<open>try\<close> block, so the events of the callback end the list.
\<close>

fun getRequest ::
  "(string \<Rightarrow> jsval + jsval) \<Rightarrow> reply list \<Rightarrow> string \<Rightarrow> jsval \<Rightarrow> (jsval list \<Rightarrow> event list)
     \<Rightarrow> nat option \<Rightarrow> event list" where
  "getRequest parse [] meth token cb page = [Request (request_opts (request_url meth token page))]"
| "getRequest parse (TransportError name msg # net) meth token cb page =
     Request (request_opts (request_url meth token page)) # cb [JErr name msg]"
| "getRequest parse (Response statusCode link body # net) meth token cb page =
     Request (request_opts (request_url meth token page)) #
     (if statusCode \<noteq> 200 then cb [JErr ''Error'' ''Invalid Response'']
      else (case parse body of
              Inl e \<Rightarrow> cb [e]
            | Inr data \<Rightarrow>
                (case next_link link of
                   Inl e \<Rightarrow> [Uncaught e]
                 | Inr (Some next_url) \<Rightarrow>
                     getRequest parse net next_url JNull
                       (\<lambda>args.
                          if truthy (arg 0 args) then [Uncaught e_not_defined]
                          else (case js_concat data (arg 1 args) of
                                  Inl e \<Rightarrow> [Uncaught e]
                                | Inr all \<Rightarrow> cb [JNull, all]))
                       (Some (page_or_1 page + 1))
                 | Inr None \<Rightarrow> cb [JNull, data])))"

subsection \<open>\<^verbatim>\<open>route\<close>\<close>

text \<open>
  \<^verbatim>\<open>Array.apply([], arguments)\<close> calls \<^verbatim>\<open>Array\<close> with the arguments: a copy of
  them, except that a single number \<open>n\<close> asks for an array of length \<open>n\<close> (of holes,
  which read as undefined) and throws when \<open>n\<close> is no array length.
\<close>

definition array_apply :: "jsval list \<Rightarrow> jsval + jsval list" where
  "array_apply arguments =
     (case arguments of
        [JNum n] \<Rightarrow>
          if 0 \<le> n \<and> n < 2 ^ 32 then Inr (replicate (nat n) JUndefined)
          else Inl (JErr ''RangeError'' ''Invalid array length'')
      | _ \<Rightarrow> Inr arguments)"

text \<open>\<^verbatim>\<open>args.shift()\<close> and \<^verbatim>\<open>args.pop()\<close>: the value removed and the array left.\<close>

fun shift :: "jsval list \<Rightarrow> jsval \<times> jsval list" where
  "shift [] = (JUndefined, [])"
| "shift (x # xs) = (x, xs)"

definition pop :: "jsval list \<Rightarrow> jsval \<times> jsval list" where
  "pop xs = (if xs = [] then (JUndefined, []) else (last xs, butlast xs))"

text \<open>
  \<^verbatim>\<open>path.match(/:/g)\<close> is \<^verbatim>\<open>null\<close> without a colon and the array of the colons
  otherwise; \<^verbatim>\<open>numVars\<close> is its length, or 0.
\<close>

definition match_colons :: "string \<Rightarrow> string list option" where
  "match_colons path =
     (let ms = map (\<lambda>c. [c]) (filter (\<lambda>c. c = CHR '':'') path)
      in if ms = [] then None else Some ms)"

definition numVars :: "string \<Rightarrow> nat" where
  "numVars path = (case match_colons path of None \<Rightarrow> 0 | Some colons \<Rightarrow> length colons)"

text \<open>
  \<^verbatim>\<open>path.split('/').map(function (part) {...})\<close>: the parts are visited from the
  left, and a part with a colon takes \<^verbatim>\<open>args.shift()\<close>. The result is the mapped
  array and the arguments left.
\<close>

fun map_parts :: "string list \<Rightarrow> jsval list \<Rightarrow> jsval list \<times> jsval list" where
  "map_parts [] args = ([], args)"
| "map_parts (part # parts) args =
     (if indexOf part '':'' \<noteq> - 1
      then (let (v, args') = shift args; (vs, args'') = map_parts parts args' in (v # vs, args''))
      else (let (vs, args') = map_parts parts args in (JStr part # vs, args')))"

definition wrong_arity :: "string list \<Rightarrow> jsval" where
  "wrong_arity paths =
     JErr ''Error'' (''incorrect number of parameters specified, must follow one of ''
                     @ ''the following: '' @ join_with '','' paths)"

text \<open>The loop over the templates (lines 117 to 134); \<open>paths\<close> is the whole array, \<open>rest\<close> what is left to try.\<close>

fun route_loop ::
  "(string \<Rightarrow> jsval + jsval) \<Rightarrow> reply list \<Rightarrow> string list \<Rightarrow> string list \<Rightarrow> jsval list
     \<Rightarrow> jsval \<Rightarrow> jsval \<Rightarrow> event list" where
  "route_loop parse net paths [] args accessToken cb = call cb [wrong_arity paths]"
| "route_loop parse net paths (path # rest) args accessToken cb =
     (if numVars path = length args
      then getRequest parse net (js_join ''/'' (fst (map_parts (split_on (CHR ''/'') path) args)))
             accessToken (call cb) None
      else route_loop parse net paths rest args accessToken cb)"

definition not_specified :: jsval where
  "not_specified = JErr ''Error'' ''either model, callback, or accessToken was not specified''"

text \<open>The function \<^verbatim>\<open>route(paths)\<close> returns, called with \<open>arguments\<close>.\<close>

definition route :: "(string \<Rightarrow> jsval + jsval) \<Rightarrow> reply list \<Rightarrow> string list \<Rightarrow> jsval list \<Rightarrow> event list" where
  "route parse net paths arguments =
     (case array_apply arguments of
        Inl e \<Rightarrow> [Uncaught e]
      | Inr args0 \<Rightarrow>
          (let (model, args1) = shift args0;
               (cb, args2) = pop args1;
               (accessToken, args) = pop args2
           in if model = JUndefined \<or> \<not> truthy cb \<or> \<not> truthy accessToken
              then (if truthy cb then call cb [not_specified] else [])
              else route_loop parse net paths paths args accessToken cb))"

text \<open>
  \<^verbatim>\<open>JSON.parse\<close> on the bodies the examples below use; the theorems hold for every
  \<open>parse\<close>. On every other body this sample reports a syntax error.
\<close>

definition parse_sample :: "string \<Rightarrow> jsval + jsval" where
  "parse_sample body =
     (if body = ''[1,2]'' then Inr (JArr [JNum 1, JNum 2])
      else if body = ''[3]'' then Inr (JArr [JNum 3])
      else if body = ''[4,5]'' then Inr (JArr [JNum 4, JNum 5])
      else if body = ''[]'' then Inr (JArr [])
      else if body = ''{}'' then Inr (JObj [])
      else Inl (JErr ''SyntaxError'' ''Unexpected token''))"


subsection \<open>The words of the specification\<close>

text \<open>
  Following the spec's words, for comparison with \<open>map_parts\<close>: a placeholder segment
  is a segment with a colon, and "each placeholder segment consumes the next unused
  positional argument in order; literal segments pass through unchanged". So the
  segment at position \<open>j\<close> is the argument whose index is the number of placeholder
  segments before \<open>j\<close>, or the segment itself.
\<close>

definition is_placeholder :: "string \<Rightarrow> bool" where
  "is_placeholder part = (CHR '':'' \<in> set part)"

definition spec_substitute :: "string list \<Rightarrow> jsval list \<Rightarrow> jsval list" where
  "spec_substitute parts vals =
     map (\<lambda>j. if is_placeholder (parts ! j)
              then vals ! length (filter is_placeholder (take j parts))
              else JStr (parts ! j))
         [0..<length parts]"

text \<open>
  Following the claim's words: a well-formed entry has an angle-bracketed URL at its
  start and a quoted rel attribute. \<open>render\<close> writes such an entry from its parts:
  white space, \<^verbatim>\<open><\<close>, the URL, \<^verbatim>\<open>>\<close>, what stands between the URL and the
  attribute, \<^verbatim>\<open>rel="\<close>, the rel name, \<^verbatim>\<open>"\<close>, and what follows the attribute.

  \<open>well_formed\<close> says when the URL and the rel name of the entry are what the two
  expressions capture:
  \<^item> only white space stands before \<^verbatim>\<open><\<close>, and the entry holds no comma (a comma
    ends an entry);
  \<^item> the URL and the rel name hold no line terminator (the dot does not match one);
  \<^item> no \<^verbatim>\<open>>\<close> follows the closing bracket of the URL on the first line of the entry
    (the greedy star would run up to it);
  \<^item> no double quote follows the closing quote of the rel name on its line (likewise);
  \<^item> before the attribute, no \<^verbatim>\<open>rel="\<close> is followed by a double quote on its
    line (the expression would match there first);
  \<^item> the rel name is not \<^verbatim>\<open>__proto__\<close>, which is no key of an object.
\<close>

definition first_line :: "string \<Rightarrow> string" where
  "first_line s = takeWhile (\<lambda>c. \<not> line_terminator c) s"

fun quoted_rel_in :: "string \<Rightarrow> bool" where
  "quoted_rel_in [] = False"
| "quoted_rel_in (c # cs) =
     ((starts_with (c # cs) rel_open
       \<and> CHR 0x22 \<in> set (first_line (drop (length rel_open) (c # cs))))
      \<or> quoted_rel_in cs)"

record link_entry =
  lead :: string
  target :: string
  params :: string
  relation :: string
  trail :: string

definition entry_core :: "link_entry \<Rightarrow> string" where
  "entry_core e = ''<'' @ target e @ ''>'' @ params e @ rel_open @ relation e @ [CHR 0x22]"

definition render :: "link_entry \<Rightarrow> string" where
  "render e = lead e @ entry_core e @ trail e"

definition well_formed :: "link_entry \<Rightarrow> bool" where
  "well_formed e =
     (list_all is_space (lead e)
      \<and> CHR '','' \<notin> set (render e)
      \<and> list_all (\<lambda>c. \<not> line_terminator c) (target e)
      \<and> list_all (\<lambda>c. \<not> line_terminator c) (relation e)
      \<and> CHR ''>'' \<notin> set (first_line (params e @ rel_open @ relation e @ [CHR 0x22] @ trail e))
      \<and> CHR 0x22 \<notin> set (first_line (trail e))
      \<and> \<not> quoted_rel_in (''<'' @ target e @ ''>'' @ params e @ rel_open)
      \<and> relation e \<noteq> ''__proto__'')"

text \<open>A string without the white space at its end.\<close>

definition rtrim :: "string \<Rightarrow> string" where
  "rtrim s = rev (dropWhile is_space (rev s))"

text \<open>The link set with the link of an entry added: its rel name maps to its URL.\<close>

definition add_link :: "link_entry \<Rightarrow> (string \<rightharpoonup> string) \<Rightarrow> (string \<rightharpoonup> string)" where
  "add_link e links = links(relation e \<mapsto> target e)"


subsection \<open>Sample inputs\<close>

text \<open>The header of a first page, in the format the source's comment shows.\<close>

definition next_page_2 :: string where
  "next_page_2 =
     ''<https://api.github.com/user/repos?page=2>; rel='' @ [CHR 0x22] @ ''next'' @ [CHR 0x22]"


text \<open>
  A header of two entries: the first has a quoted parameter before the rel attribute,
  the second a parameter and a space after it.
\<close>

definition annotated_header :: string where
  "annotated_header =
     ''<https://api.github.com/user/repos?page=3&per_page=100>; title='' @ [CHR 0x22] @ ''x''
     @ [CHR 0x22] @ ''; rel='' @ [CHR 0x22] @ ''next'' @ [CHR 0x22]
     @ '', <https://api.github.com/user/repos?page=50&per_page=100>; rel=''
     @ [CHR 0x22] @ ''last'' @ [CHR 0x22] @ ''; foo=bar ''"

text \<open>Two entries with the same rel name.\<close>

definition repeated_next :: string where
  "repeated_next = ''<a>; rel='' @ [CHR 0x22] @ ''next'' @ [CHR 0x22]
                   @ '',<b>; rel='' @ [CHR 0x22] @ ''next'' @ [CHR 0x22]"

section \<open>Properties\<close>

declare string_of_nat.simps [simp del]

subsection \<open>Strings\<close>

lemma split_on_nonempty: "split_on c s \<noteq> []"
  by (induction s) (auto split: list.splits)

lemma starts_with_iff: "starts_with s pat \<longleftrightarrow> (\<exists>b. s = pat @ b)"
  by (induction s pat rule: starts_with.induct) auto

lemma indexOf_ge: "- 1 \<le> indexOf s pat"
  by (induction s) (auto simp: Let_def)

text \<open>\<^verbatim>\<open>s.indexOf(pat) !== -1\<close> tests whether \<open>pat\<close> occurs anywhere in \<open>s\<close>.\<close>

lemma indexOf_iff: "indexOf s pat \<noteq> - 1 \<longleftrightarrow> (\<exists>a b. s = a @ pat @ b)"
proof (induction s)
  case Nil
  then show ?case by auto
next
  case (Cons c cs)
  show ?case
  proof (cases "starts_with (c # cs) pat")
    case True
    then obtain b where "c # cs = pat @ b" by (auto simp: starts_with_iff)
    then have "c # cs = [] @ pat @ b" by simp
    then have "\<exists>a b. c # cs = a @ pat @ b" by blast
    with True show ?thesis by simp
  next
    case False
    have "(\<exists>a b. c # cs = a @ pat @ b) \<longleftrightarrow> (\<exists>a b. cs = a @ pat @ b)"
    proof
      assume "\<exists>a b. c # cs = a @ pat @ b"
      then obtain a b where ab: "c # cs = a @ pat @ b" by blast
      show "\<exists>a b. cs = a @ pat @ b"
      proof (cases a)
        case Nil
        with ab False show ?thesis by (auto simp: starts_with_iff)
      next
        case (Cons x a')
        with ab have "cs = a' @ pat @ b" by simp
        then show ?thesis by blast
      qed
    next
      assume "\<exists>a b. cs = a @ pat @ b"
      then obtain a b where "cs = a @ pat @ b" by blast
      then have "c # cs = (c # a) @ pat @ b" by simp
      then show "\<exists>a b. c # cs = a @ pat @ b" by blast
    qed
    moreover have "indexOf (c # cs) pat \<noteq> - 1 \<longleftrightarrow> indexOf cs pat \<noteq> - 1"
      using False indexOf_ge [of cs pat] by (auto simp: Let_def)
    ultimately show ?thesis using Cons.IH by simp
  qed
qed

lemma indexOf_colon: "indexOf part '':'' \<noteq> - 1 \<longleftrightarrow> is_placeholder part"
proof -
  have "(\<exists>a b. part = a @ '':'' @ b) \<longleftrightarrow> CHR '':'' \<in> set part"
    by (auto simp: in_set_conv_decomp)
  then show ?thesis by (simp only: indexOf_iff is_placeholder_def)
qed

subsection \<open>The request of a call\<close>

lemma request_url_cases:
  "request_url meth token page =
     (if (\<exists>a b. meth = a @ ''http'' @ b) then meth
      else ''https://api.github.com/'' @ meth @ ''?access_token='' @ to_string token
           @ ''&per_page=100&page=''
           @ string_of_nat (case page of None \<Rightarrow> 1 | Some n \<Rightarrow> if n = 0 then 1 else n))"
  unfolding request_url_def endpoint_def page_or_1_def indexOf_iff by simp

lemma getRequest_first:
  "\<exists>rest. getRequest parse net meth token cb page =
     Request (request_opts (request_url meth token page)) # rest"
  by (cases "(parse, net, meth, token, cb, page)" rule: getRequest.cases) auto

text \<open>
  What the code does: every call of \<open>getRequest\<close> first sends one GET with the two
  fixed headers. Its URL is the target as it is when \<^verbatim>\<open>http\<close> occurs anywhere in
  the target; otherwise it is the API root, the target, and the query
  \<^verbatim>\<open>access_token\<close> (the credential as a string), \<^verbatim>\<open>per_page=100\<close> and
  \<^verbatim>\<open>page\<close>, the page being 1 when none is given.
\<close>

lemma getRequest_request_url:
  "\<exists>rest. getRequest parse net meth token cb page =
     Request \<lparr> url = (if (\<exists>a b. meth = a @ ''http'' @ b) then meth
                      else ''https://api.github.com/'' @ meth
                           @ ''?access_token='' @ to_string token
                           @ ''&per_page=100&page=''
                           @ string_of_nat (case page of None \<Rightarrow> 1
                                            | Some n \<Rightarrow> if n = 0 then 1 else n)),
               http_method = ''get'',
               headers = [(''User-Agent'', ''Sails GitHub Adapter''),
                          (''Accept'', ''application/json'')] \<rparr> # rest"
  using getRequest_first [of parse net meth token cb page]
  by (simp add: request_url_cases request_opts_def)

lemma getRequest_request_url_example:
  "\<exists>rest. getRequest parse_sample [] ''user/repos'' (JStr ''tok'') (call (JFun ''cb'')) None =
     Request \<lparr> url = ''https://api.github.com/user/repos?access_token=tok&per_page=100&page=1'',
               http_method = ''get'',
               headers = [(''User-Agent'', ''Sails GitHub Adapter''),
                          (''Accept'', ''application/json'')] \<rparr> # rest"
proof -
  have "\<not> (\<exists>a b. ''user/repos'' = a @ ''http'' @ b)"
    using indexOf_iff [of "''user/repos''" "''http''"] by simp
  then show ?thesis
    using getRequest_request_url
      [of parse_sample "[]" "''user/repos''" "JStr ''tok''" "call (JFun ''cb'')" None]
    by (simp add: string_of_nat.simps)
qed

text \<open>
  C5, at the relative path \<^verbatim>\<open>users/httpbin\<close> (what \<open>route\<close> builds from the
  template \<^verbatim>\<open>users/:user\<close> and the user name \<^verbatim>\<open>httpbin\<close>): the target is no
  fully-qualified URL, so the claim asks for the API root, the path and the query; the
  code finds \<^verbatim>\<open>http\<close> inside the path and sends the path as it is, against its
  comment on line 52 (\<^verbatim>\<open>If passed in a url, use that, otherwise construct it\<close>).
\<close>

theorem relative_path_with_http_sent_verbatim:
  "getRequest parse_sample [] ''users/httpbin'' (JStr ''tok'') (call (JFun ''cb'')) None
     = [Request (request_opts ''users/httpbin'')]
   \<and> request_url ''users/httpbin'' (JStr ''tok'') None
       \<noteq> ''https://api.github.com/users/httpbin?access_token=tok&per_page=100&page=1''"
  by (simp add: request_url_def)

text \<open>
  C10. The relative path \<^verbatim>\<open>users/httpbin\<close> has no colon, so it is no fully-qualified
  URL, yet \<^verbatim>\<open>http\<close> occurs inside it. It is the path \<open>route\<close> builds from the
  template \<^verbatim>\<open>users/:user\<close> and the argument \<^verbatim>\<open>httpbin\<close>, and \<open>getRequest\<close>
  sends it as the URL of the request as it is, without the API root and the query.
\<close>

theorem http_inside_relative_path:
  "\<exists>path. CHR '':'' \<notin> set path
     \<and> (\<exists>a b. path = a @ ''http'' @ b)
     \<and> route parse net [''user'', ''users/:user'']
           [JObj [], JStr ''httpbin'', JStr ''tok'', JFun ''cb'']
         = getRequest parse net path (JStr ''tok'') (call (JFun ''cb'')) None
     \<and> (\<exists>rest. getRequest parse net path token cb page =
           Request \<lparr> url = path, http_method = ''get'',
                     headers = [(''User-Agent'', ''Sails GitHub Adapter''),
                                (''Accept'', ''application/json'')] \<rparr> # rest)"
proof -
  let ?path = "''users/httpbin''"
  have 1: "CHR '':'' \<notin> set ?path" by simp
  have "?path = ''users/'' @ ''http'' @ ''bin''" by simp
  then have 2: "\<exists>a b. ?path = a @ ''http'' @ b" by blast
  have 3: "route parse net [''user'', ''users/:user'']
             [JObj [], JStr ''httpbin'', JStr ''tok'', JFun ''cb'']
           = getRequest parse net ?path (JStr ''tok'') (call (JFun ''cb'')) None"
    by (simp add: route_def array_apply_def pop_def numVars_def match_colons_def js_join_def)
  have "request_url ?path token page = ?path"
    by (simp add: request_url_def)
  then have 4: "\<exists>rest. getRequest parse net ?path token cb page =
           Request \<lparr> url = ?path, http_method = ''get'',
                     headers = [(''User-Agent'', ''Sails GitHub Adapter''),
                                (''Accept'', ''application/json'')] \<rparr> # rest"
    using getRequest_first [of parse net ?path token cb page]
    by (simp add: request_opts_def)
  from 1 2 3 4 show ?thesis by blast
qed

theorem http_inside_relative_path_witness:
  "\<exists>path. CHR '':'' \<notin> set path
     \<and> (\<exists>a b. path = a @ ''http'' @ b)
     \<and> route parse_sample [] [''user'', ''users/:user'']
           [JObj [], JStr ''httpbin'', JStr ''tok'', JFun ''cb'']
         = getRequest parse_sample [] path (JStr ''tok'') (call (JFun ''cb'')) None
     \<and> (\<exists>rest. getRequest parse_sample [] path (JStr ''tok'') (call (JFun ''cb'')) (Some 3) =
           Request \<lparr> url = path, http_method = ''get'',
                     headers = [(''User-Agent'', ''Sails GitHub Adapter''),
                                (''Accept'', ''application/json'')] \<rparr> # rest)"
  using http_inside_relative_path
    [of parse_sample "[]" "JStr ''tok''" "call (JFun ''cb'')" "Some 3"]
  by simp

subsection \<open>Pages\<close>

lemma next_link_page_2:
  "next_link (Some next_page_2) = Inr (Some ''https://api.github.com/user/repos?page=2'')"
  by (simp add: next_link_def next_page_2_def parseLinks_def trim_def is_space_def rel_open_def
      greedy_until_def line_terminator_def exec_source_def set_prop_def)

lemma request_url_sample:
  "request_url ''user/repos'' (JStr ''tok'') None =
     ''https://api.github.com/user/repos?access_token=tok&per_page=100&page=1''"
  by (simp add: request_url_def endpoint_def page_or_1_def string_of_nat.simps)

lemma request_url_absolute:
  "request_url ''https://api.github.com/user/repos?page=2'' token page =
     ''https://api.github.com/user/repos?page=2''"
  by (simp add: request_url_def)

text \<open>
  A transport error or a status other than 200 on the page the caller asked for reaches
  the callback, once, and nothing more is sent.
\<close>

lemma getRequest_first_page_error:
  "getRequest parse (TransportError name msg # net) meth token cb page =
     Request (request_opts (request_url meth token page)) # cb [JErr name msg]"
  "statusCode \<noteq> 200 \<Longrightarrow>
   getRequest parse (Response statusCode link body # net) meth token cb page =
     Request (request_opts (request_url meth token page)) # cb [JErr ''Error'' ''Invalid Response'']"
  by simp_all

text \<open>
  When a page has a next link and the page fetched from it fails, the callback of the
  recursive call throws the \<^verbatim>\<open>ReferenceError\<close>, whatever the failure is, and the
  caller's callback \<open>cb\<close> is not called at all.
\<close>

lemma getRequest_second_page_error:
  assumes "parse body = Inr data" and "next_link link = Inr (Some u)"
    and "r = TransportError name msg \<or> (r = Response statusCode link' body' \<and> statusCode \<noteq> 200)"
  shows "getRequest parse (Response 200 link body # r # net) meth token cb page =
           [Request (request_opts (request_url meth token page)),
            Request (request_opts (request_url u JNull (Some (page_or_1 page + 1)))),
            Uncaught e_not_defined]"
  using assms by (auto simp: arg_def)

text \<open>
  C1, at a chain of two pages: the first page answers 200 with a next link, the second
  answers 500. The model sends the two requests and ends in the uncaught
  \<^verbatim>\<open>ReferenceError\<close> of \<^verbatim>\<open>cb(e)\<close> (line 84); the caller's callback is never
  invoked, although the claim asks for one invocation with the error.
\<close>

theorem second_page_failure_is_thrown:
  "getRequest parse_sample
     [Response 200 (Some next_page_2) ''[1,2]'', Response 500 None ''[3]'']
     ''user/repos'' (JStr ''tok'') (call (JFun ''cb'')) None =
   [Request (request_opts ''https://api.github.com/user/repos?access_token=tok&per_page=100&page=1''),
    Request (request_opts ''https://api.github.com/user/repos?page=2''),
    Uncaught (JErr ''ReferenceError'' ''e is not defined'')]"
  by (simp add: next_link_page_2 parse_sample_def arg_def request_url_sample
      request_url_absolute e_not_defined_def)

text \<open>
  An entry that one of the two expressions does not match makes \<open>parseLinks\<close> throw,
  whatever the entries before it are, when those match.
\<close>

lemma parse_entries_malformed:
  "exec_rel (trim e) = None \<or> exec_source (trim e) = None \<Longrightarrow>
   parse_entries (e # es) result = Inl null_index_error"
  by (auto simp: Let_def split: option.splits)

lemma parse_entries_append_malformed:
  "exec_rel (trim e) = None \<or> exec_source (trim e) = None \<Longrightarrow>
   \<exists>err. parse_entries (pre @ e # es) result = Inl err"
  by (induction pre arbitrary: result) (auto simp: Let_def split: option.splits)

text \<open>
  C3, at a page that answers 200 with the link header \<^verbatim>\<open>garbage\<close>: the
  \<^verbatim>\<open>TypeError\<close> of \<open>parseLinks\<close> leaves the handler uncaught (the call on line 79
  stands in no \<^verbatim>\<open>try\<close> block, unlike \<^verbatim>\<open>JSON.parse\<close> above it), and the caller's
  callback is never invoked, although the claim asks for the error to reach it.
\<close>

theorem malformed_link_header_is_thrown:
  "getRequest parse_sample [Response 200 (Some ''garbage'') ''[1,2]'']
     ''user/repos'' (JStr ''tok'') (call (JFun ''cb'')) None =
   [Request (request_opts ''https://api.github.com/user/repos?access_token=tok&per_page=100&page=1''),
    Uncaught (JErr ''TypeError'' ''Cannot read properties of null (reading '1')'')]"
  by (simp add: parse_sample_def next_link_def parseLinks_def trim_def is_space_def rel_open_def
      request_url_sample null_index_error_def)

text \<open>
  The empty header has one entry, the empty string, which matches neither expression:
  \<open>parseLinks\<close> throws on it and returns no empty link set.
\<close>

theorem parseLinks_empty_header_counterexample:
  "parseLinks [] = Inl (JErr ''TypeError'' ''Cannot read properties of null (reading '1')'')"
  by (simp add: parseLinks_def trim_def null_index_error_def)

text \<open>
  C7, amended. For an absent and for an empty link header \<open>getRequest\<close> does not call
  \<open>parseLinks\<close>: the test for a next link fails at once, and the call completes with
  the parsed body of the current page.
\<close>

theorem absent_or_empty_link_header_completes:
  assumes "link = None \<or> link = Some []" and "parse body = Inr data"
  shows "next_link link = Inr None \<and>
         getRequest parse (Response 200 link body # net) meth token cb page =
           Request (request_opts (request_url meth token page)) # cb [JNull, data]"
  using assms by (auto simp: next_link_def)

theorem absent_or_empty_link_header_completes_witness:
  "next_link (Some []) = Inr None \<and>
   getRequest parse_sample [Response 200 (Some []) ''[3]''] ''user/repos'' (JStr ''tok'')
     (call (JFun ''cb'')) None =
     [Request (request_opts ''https://api.github.com/user/repos?access_token=tok&per_page=100&page=1''),
      Invoke (JFun ''cb'') [JNull, JArr [JNum 3]]]"
  using absent_or_empty_link_header_completes
    [of "Some []" parse_sample "''[3]''" "JArr [JNum 3]" "[]" "''user/repos''" "JStr ''tok''"
        "call (JFun ''cb'')" None]
  by (simp add: parse_sample_def request_url_sample)

subsection \<open>The route resolver\<close>

lemma numVars_count: "numVars path = length (filter (\<lambda>c. c = CHR '':'') path)"
  by (simp add: numVars_def match_colons_def Let_def)

lemma array_apply_copy: "xs \<noteq> [] \<Longrightarrow> array_apply (m # xs) = Inr (m # xs)"
  by (cases xs) (auto simp: array_apply_def split: jsval.splits)

lemma pop_snoc: "pop (xs @ [x]) = (x, xs)"
  by (simp add: pop_def)

text \<open>
  With at least three arguments the first is the model, the last the callback and the
  one before it the credential; the arguments between them are the positional ones.
\<close>

lemma route_full_shape:
  "route parse net paths (model # positional @ [accessToken, cb]) =
     (if model = JUndefined \<or> \<not> truthy cb \<or> \<not> truthy accessToken
      then (if truthy cb then call cb [not_specified] else [])
      else route_loop parse net paths paths positional accessToken cb)"
proof -
  have "pop (positional @ [accessToken, cb]) = (cb, positional @ [accessToken])"
    using pop_snoc [of "positional @ [accessToken]" cb] by simp
  then show ?thesis
    by (simp add: route_def array_apply_copy pop_snoc)
qed

lemma route_loop_no_match:
  "\<forall>path \<in> set rest. numVars path \<noteq> length args \<Longrightarrow>
   route_loop parse net paths rest args accessToken cb = call cb [wrong_arity paths]"
  by (induction rest) auto

lemma route_loop_first_match:
  "i < length rest \<Longrightarrow> numVars (rest ! i) = length args \<Longrightarrow>
   \<forall>j<i. numVars (rest ! j) \<noteq> length args \<Longrightarrow>
   route_loop parse net paths rest args accessToken cb =
     getRequest parse net (js_join ''/'' (fst (map_parts (split_on (CHR ''/'') (rest ! i)) args)))
       accessToken (call cb) None"
proof (induction rest arbitrary: i)
  case Nil
  then show ?case by simp
next
  case (Cons p rest)
  show ?case
  proof (cases i)
    case 0
    with Cons.prems show ?thesis by simp
  next
    case (Suc k)
    with Cons.prems have "numVars p \<noteq> length args" by auto
    moreover have "k < length rest" "numVars (rest ! k) = length args"
      "\<forall>j<k. numVars (rest ! j) \<noteq> length args"
      using Cons.prems Suc by auto
    ultimately show ?thesis using Cons.IH [of k] Suc by simp
  qed
qed

text \<open>
  A template has at most as many segments with a colon as it has colons, so the
  chosen template never runs out of arguments.
\<close>

lemma placeholders_le_colons:
  "c \<noteq> CHR '':'' \<Longrightarrow>
   length (filter is_placeholder (split_on c path)) \<le> length (filter (\<lambda>x. x = CHR '':'') path)"
proof (induction path)
  case Nil
  then show ?case by (simp add: is_placeholder_def)
next
  case (Cons x xs)
  obtain w ws where s: "split_on c xs = w # ws"
    using split_on_nonempty [of c xs] by (cases "split_on c xs") auto
  show ?case
  proof (cases "x = c")
    case True
    with Cons show ?thesis by (simp add: is_placeholder_def)
  next
    case False
    with Cons s show ?thesis by (auto simp: is_placeholder_def)
  qed
qed

lemma map_parts_substitute:
  "length (filter is_placeholder parts) \<le> length args \<Longrightarrow>
   fst (map_parts parts args) = spec_substitute parts args"
proof (induction parts arbitrary: args)
  case Nil
  then show ?case by (simp add: spec_substitute_def)
next
  case (Cons p ps)
  have upt: "[0..<length (p # ps)] = 0 # map Suc [0..<length ps]"
    by (simp add: upt_conv_Cons map_Suc_upt del: upt_Suc)
  show ?case
  proof (cases "is_placeholder p")
    case True
    with Cons.prems obtain a args' where a: "args = a # args'"
      by (cases args) auto
    with Cons.prems True have "length (filter is_placeholder ps) \<le> length args'" by simp
    then have "fst (map_parts ps args') = spec_substitute ps args'" by (rule Cons.IH)
    then show ?thesis using True a
      unfolding spec_substitute_def upt
      by (simp add: indexOf_colon split_beta comp_def)
  next
    case False
    with Cons.prems have "length (filter is_placeholder ps) \<le> length args" by simp
    then have "fst (map_parts ps args) = spec_substitute ps args" by (rule Cons.IH)
    then show ?thesis using False
      unfolding spec_substitute_def upt
      by (simp add: indexOf_colon split_beta comp_def)
  qed
qed

text \<open>
  C6. An invocation \<open>(model, positional..., accessToken, cb)\<close> with the model defined
  and a truthy credential and callback, whose number of positional arguments is the
  number of colons of some template: the first such template \<open>paths ! i\<close> is chosen,
  its segments with a colon take the positional arguments from the left, the other
  segments stay, the segments are joined by \<^verbatim>\<open>/\<close>, and the path, the credential and
  the callback go to \<open>getRequest\<close> without a page (so at page 1).
\<close>

theorem route_selects_first_matching_template:
  assumes "model \<noteq> JUndefined" and "truthy accessToken" and "truthy cb"
    and "i < length paths" and "numVars (paths ! i) = length positional"
    and "\<forall>j<i. numVars (paths ! j) \<noteq> length positional"
  shows "route parse net paths (model # positional @ [accessToken, cb]) =
           getRequest parse net
             (js_join ''/'' (spec_substitute (split_on (CHR ''/'') (paths ! i)) positional))
             accessToken (call cb) None"
proof -
  have "length (filter is_placeholder (split_on (CHR ''/'') (paths ! i))) \<le> length positional"
    using placeholders_le_colons [of "CHR ''/''" "paths ! i"] assms(5)
    by (simp add: numVars_count)
  then have "fst (map_parts (split_on (CHR ''/'') (paths ! i)) positional) =
             spec_substitute (split_on (CHR ''/'') (paths ! i)) positional"
    by (rule map_parts_substitute)
  then show ?thesis
    using assms route_loop_first_match [of i paths positional parse net paths accessToken cb]
    by (simp add: route_full_shape)
qed

theorem route_selects_first_matching_template_witness:
  "route parse_sample [] [''user/repos'', ''users/:user/repos'', ''repos/:owner/:repo/branches'']
     [JObj [], JStr ''octocat'', JStr ''tok'', JFun ''cb''] =
   getRequest parse_sample [] ''users/octocat/repos'' (JStr ''tok'') (call (JFun ''cb'')) None"
proof -
  let ?paths = "[''user/repos'', ''users/:user/repos'', ''repos/:owner/:repo/branches'']"
  have n: "numVars (?paths ! 1) = length [JStr ''octocat'']"
    by (simp add: numVars_count)
  have f: "\<forall>j<1. numVars (?paths ! j) \<noteq> length [JStr ''octocat'']"
    by (simp add: numVars_count)
  have s: "js_join ''/'' (spec_substitute (split_on (CHR ''/'') (?paths ! 1)) [JStr ''octocat''])
           = ''users/octocat/repos''"
    by (simp add: js_join_def spec_substitute_def is_placeholder_def)
  show ?thesis
    using route_selects_first_matching_template
      [of "JObj []" "JStr ''tok''" "JFun ''cb''" 1 ?paths "[JStr ''octocat'']" parse_sample "[]"]
      n f s
    by simp
qed

text \<open>
  C8. An invocation \<open>(model, positional..., accessToken, cb)\<close> with the model defined, a
  truthy credential and a function as callback, whose number of positional arguments
  is the number of colons of no template: the callback is invoked once with the error
  that lists the templates, and nothing is sent.
\<close>

theorem route_no_matching_template:
  assumes "model \<noteq> JUndefined" and "truthy accessToken" and "cb = JFun src"
    and "\<forall>path \<in> set paths. numVars path \<noteq> length positional"
  shows "route parse net paths (model # positional @ [accessToken, cb]) =
           [Invoke cb [JErr ''Error''
              (''incorrect number of parameters specified, must follow one of the following: ''
               @ join_with '','' paths)]]"
  using assms by (simp add: route_full_shape route_loop_no_match wrong_arity_def)

theorem route_no_matching_template_witness:
  "route parse_sample [Response 200 None ''[3]''] [''user'', ''users/:user'']
     [JObj [], JStr ''a'', JStr ''b'', JStr ''tok'', JFun ''cb''] =
   [Invoke (JFun ''cb'') [JErr ''Error''
      ''incorrect number of parameters specified, must follow one of the following: user,users/:user'']]"
  using route_no_matching_template
    [of "JObj []" "JStr ''tok''" "JFun ''cb''" "''cb''" "[''user'', ''users/:user'']"
        "[JStr ''a'', JStr ''b'']" parse_sample "[Response 200 None ''[3]'']"]
  by (simp add: numVars_count)

text \<open>
  Two invocations without a callback. With \<open>(model, token)\<close> the token stands where the
  callback is expected, no credential is left, and calling the token throws. With
  \<open>(model, user, token)\<close> the check passes, the template without a placeholder is
  chosen and a request is sent with the user name as credential; the answer then
  makes the call of the token throw.
\<close>

theorem route_without_callback_counterexample:
  "route parse_sample [] [''user'', ''users/:user''] [JObj [], JStr ''tok''] =
     [Uncaught (JErr ''TypeError'' ''cb is not a function'')]
   \<and> route parse_sample [Response 200 None ''{}''] [''user'', ''users/:user'']
       [JObj [], JStr ''octocat'', JStr ''tok''] =
     [Request (request_opts ''https://api.github.com/user?access_token=octocat&per_page=100&page=1''),
      Uncaught (JErr ''TypeError'' ''cb is not a function'')]"
  by (simp add: route_def array_apply_def pop_def not_a_function_def numVars_count js_join_def
      parse_sample_def next_link_def request_url_def endpoint_def page_or_1_def
      string_of_nat.simps)

text \<open>
  C9, amended. Let the value in the callback position be falsy or a function. If the
  model is undefined, or the credential or the callback is falsy, in an invocation
  \<open>(model, positional..., accessToken, cb)\<close>, then a function \<open>cb\<close> is invoked once with
  the error \<^verbatim>\<open>either model, callback, or accessToken was not specified\<close>, a falsy
  \<open>cb\<close> means that nothing happens, and nothing is sent. The same holds for the two
  arguments \<open>(model, cb)\<close>, where no credential is left. With one argument (other than
  a number that is no array length) and with none, nothing happens.
\<close>

theorem route_invalid_invocation:
  assumes "\<not> truthy cb \<or> (\<exists>src. cb = JFun src)"
  shows "(model = JUndefined \<or> \<not> truthy accessToken \<or> \<not> truthy cb \<longrightarrow>
            route parse net paths (model # positional @ [accessToken, cb]) =
              (if truthy cb then [Invoke cb [not_specified]] else []))
       \<and> route parse net paths [model, cb] =
           (if truthy cb then [Invoke cb [not_specified]] else [])
       \<and> ((\<forall>n. model = JNum n \<longrightarrow> 0 \<le> n \<and> n < 2 ^ 32) \<longrightarrow> route parse net paths [model] = [])
       \<and> route parse net paths [] = []"
proof -
  have c: "truthy cb \<Longrightarrow> call cb [not_specified] = [Invoke cb [not_specified]]"
    using assms by auto
  have 1: "model = JUndefined \<or> \<not> truthy accessToken \<or> \<not> truthy cb \<longrightarrow>
            route parse net paths (model # positional @ [accessToken, cb]) =
              (if truthy cb then [Invoke cb [not_specified]] else [])"
    using c by (auto simp: route_full_shape)
  have 2: "route parse net paths [model, cb] =
             (if truthy cb then [Invoke cb [not_specified]] else [])"
    using c by (simp add: route_def array_apply_copy pop_def)
  have 3: "(\<forall>n. model = JNum n \<longrightarrow> 0 \<le> n \<and> n < 2 ^ 32) \<longrightarrow> route parse net paths [model] = []"
  proof
    assume r: "\<forall>n. model = JNum n \<longrightarrow> 0 \<le> n \<and> n < 2 ^ 32"
    show "route parse net paths [model] = []"
    proof (cases model)
      case (JNum n)
      with r have n: "0 \<le> n" "n < 2 ^ 32" by auto
      have "fst (shift (replicate (nat n) JUndefined)) = JUndefined"
        by (cases "nat n") auto
      moreover have "\<not> truthy (fst (pop xs))" if "set xs \<subseteq> {JUndefined}" for xs
        using that by (cases xs rule: rev_cases) (auto simp: pop_def)
      moreover have "set (snd (shift (replicate (nat n) JUndefined))) \<subseteq> {JUndefined}"
        by (cases "nat n") auto
      ultimately show ?thesis using JNum n
        by (auto simp: route_def array_apply_def split_beta)
    qed (simp_all add: route_def array_apply_def pop_def)
  qed
  have 4: "route parse net paths [] = []"
    by (simp add: route_def array_apply_def pop_def)
  from 1 2 3 4 show ?thesis by blast
qed

theorem route_invalid_invocation_witness:
  "route parse_sample [Response 200 None ''[3]''] [''user'', ''users/:user'']
     [JObj [], JStr ''octocat'', JUndefined, JFun ''cb''] =
     [Invoke (JFun ''cb'')
        [JErr ''Error'' ''either model, callback, or accessToken was not specified'']]
   \<and> route parse_sample [Response 200 None ''[3]''] [''user'', ''users/:user'']
       [JObj [], JFun ''cb''] =
     [Invoke (JFun ''cb'')
        [JErr ''Error'' ''either model, callback, or accessToken was not specified'']]
   \<and> route parse_sample [Response 200 None ''[3]''] [''user'', ''users/:user''] [JObj []] = []
   \<and> route parse_sample [Response 200 None ''[3]''] [''user'', ''users/:user''] [] = []"
  using route_invalid_invocation
    [of "JFun ''cb''" "JObj []" JUndefined parse_sample "[Response 200 None ''[3]'']"
        "[''user'', ''users/:user'']" "[JStr ''octocat'']"]
  by (simp add: not_specified_def)

subsection \<open>Following the next links\<close>






subsection \<open>The link header\<close>

lemma split_on_no_sep: "c \<notin> set e \<Longrightarrow> split_on c e = [e]"
  by (induction e) auto

lemma split_on_append_sep: "c \<notin> set e \<Longrightarrow> split_on c (e @ c # s) = e # split_on c s"
  by (induction e) auto

text \<open>Splitting undoes joining when no piece holds the separator.\<close>

lemma split_on_join:
  "es \<noteq> [] \<Longrightarrow> \<forall>e \<in> set es. c \<notin> set e \<Longrightarrow> split_on c (join_with [c] es) = es"
proof (induction "[c]" es rule: join_with.induct)
  case 1
  then show ?case by simp
next
  case (2 s)
  then show ?case by (simp add: split_on_no_sep)
next
  case (3 s t ss)
  then show ?case by (simp add: split_on_append_sep)
qed

lemma trim_padded:
  assumes "list_all is_space l" and "core \<noteq> []" and "\<not> is_space (hd core)"
    and "\<not> is_space (last core)"
  shows "trim (l @ core @ t) = core @ rtrim t"
proof -
  have 1: "dropWhile is_space (l @ core @ t) = core @ t"
    using assms(1,2,3) by (cases core) (auto simp: dropWhile_append2 list_all_iff)
  have 2: "dropWhile is_space (rev core) = rev core"
    using assms(2,4) by (cases core rule: rev_cases) auto
  have "dropWhile is_space (rev t @ rev core) = dropWhile is_space (rev t) @ rev core"
    using 2 by (simp add: dropWhile_append)
  then show ?thesis by (simp add: trim_def rtrim_def 1)
qed

lemma rtrim_decomp: "\<exists>ws. t = rtrim t @ ws"
proof -
  have "rev (takeWhile is_space (rev t) @ dropWhile is_space (rev t)) = t"
    by simp
  then have "rev (dropWhile is_space (rev t)) @ rev (takeWhile is_space (rev t)) = t"
    by (simp only: rev_append)
  then have "t = rtrim t @ rev (takeWhile is_space (rev t))"
    by (simp only: rtrim_def)
  then show ?thesis by blast
qed

lemma first_line_append_subset: "set (first_line xs) \<subseteq> set (first_line (xs @ ys))"
  by (auto simp: first_line_def takeWhile_append dest: set_takeWhileD)

text \<open>What trimming removes at the end adds nothing to the first line.\<close>

lemma first_line_rtrim: "set (first_line (x @ rtrim t)) \<subseteq> set (first_line (x @ t))"
proof -
  obtain ws where "t = rtrim t @ ws" using rtrim_decomp by blast
  then have "x @ t = (x @ rtrim t) @ ws" by simp
  then show ?thesis using first_line_append_subset [of "x @ rtrim t" ws] by simp
qed

text \<open>The greedy star stops at the last \<open>d\<close> of the line.\<close>

lemma greedy_until_first_line:
  assumes "list_all (\<lambda>c. \<not> line_terminator c) k" and "\<not> line_terminator d"
    and "d \<notin> set (first_line rest)"
  shows "greedy_until d (k @ d # rest) = Some k"
proof -
  have tw: "takeWhile (\<lambda>c. \<not> line_terminator c) (k @ d # rest) = k @ d # first_line rest"
    using assms(1,2) by (simp add: list_all_iff first_line_def)
  have dw: "dropWhile (\<lambda>c. c \<noteq> d) (rev (first_line rest) @ d # rev k) = d # rev k"
  proof -
    have "\<And>x. x \<in> set (rev (first_line rest)) \<Longrightarrow> x \<noteq> d"
      using assms(3) by auto
    then have "dropWhile (\<lambda>c. c \<noteq> d) (rev (first_line rest) @ d # rev k)
               = dropWhile (\<lambda>c. c \<noteq> d) (d # rev k)"
      by (rule dropWhile_append2)
    then show ?thesis by simp
  qed
  show ?thesis unfolding greedy_until_def Let_def tw by (simp add: dw)
qed

lemma greedy_until_None: "greedy_until d s = None \<longleftrightarrow> d \<notin> set (first_line s)"
  by (simp add: greedy_until_def first_line_def Let_def)

lemma greedy_until_Some: "greedy_until d s = Some k \<Longrightarrow> d \<in> set (first_line s)"
  by (simp add: greedy_until_def first_line_def Let_def split: if_splits)

lemma drop_prefix_eq:
  "drop_prefix p s = (if starts_with s p then Some (drop (length p) s) else None)"
  by (induction p s rule: drop_prefix.induct) auto

lemma drop_prefix_append: "drop_prefix p (p @ t) = Some t"
  by (induction p) auto

text \<open>
  The expression \<^verbatim>\<open>/rel="(.*)"/\<close> matches nowhere in \<open>s\<close> iff no \<^verbatim>\<open>rel="\<close> in
  \<open>s\<close> is followed by a double quote on its line.
\<close>

lemma exec_rel_None: "exec_rel s = None \<longleftrightarrow> \<not> quoted_rel_in s"
  by (induction s)
     (auto simp: drop_prefix_eq greedy_until_None dest: greedy_until_Some split: option.splits)

lemma starts_with_append:
  "length p \<le> length s \<Longrightarrow> starts_with (s @ r) p = starts_with s p"
  by (induction s p rule: starts_with.induct) auto

lemma drop_append_le: "n \<le> length s \<Longrightarrow> drop n (s @ r) = drop n s @ r"
  by simp

lemma exec_rel_tail: "exec_rel (c # cs) = None \<Longrightarrow> exec_rel cs = None"
  by (auto split: option.splits)

lemma first_line_cut:
  assumes "d \<notin> set (first_line t0)" and "d \<in> set t0"
  shows "first_line (t0 @ rest) = first_line t0"
proof -
  have "first_line t0 \<noteq> t0" using assms by auto
  then obtain x where "x \<in> set t0" "line_terminator x"
    by (auto simp: first_line_def takeWhile_eq_all_conv)
  then show ?thesis by (simp add: first_line_def)
qed

text \<open>
  When the expression matches nowhere up to the attribute, it matches at the
  attribute and captures the rel name.
\<close>

lemma exec_rel_attribute:
  assumes "exec_rel (a @ rel_open) = None"
    and "list_all (\<lambda>c. \<not> line_terminator c) r" and "CHR 0x22 \<notin> set (first_line t)"
  shows "exec_rel (a @ rel_open @ r @ CHR 0x22 # t) = Some r"
  using assms(1)
proof (induction a)
  case Nil
  have g: "greedy_until (CHR 0x22) (r @ CHR 0x22 # t) = Some r"
    using assms(2,3) by (intro greedy_until_first_line) (auto simp: line_terminator_def)
  obtain c cs where c: "rel_open @ r @ CHR 0x22 # t = c # cs" by (simp add: rel_open_def)
  have "drop_prefix rel_open (c # cs) = Some (r @ CHR 0x22 # t)"
    using drop_prefix_append [of rel_open "r @ CHR 0x22 # t"] c by simp
  then have "exec_rel (c # cs) = Some r" using g by simp
  then show ?case using c by simp
next
  case (Cons x a)
  let ?rest = "r @ CHR 0x22 # t"
  have ih: "exec_rel (a @ rel_open @ ?rest) = Some r"
    using Cons.prems exec_rel_tail [of x "a @ rel_open"] by (intro Cons.IH) simp
  show ?case
  proof (cases "starts_with (x # a @ rel_open) rel_open")
    case False
    have "length rel_open \<le> length (x # a @ rel_open)" by simp
    then have "starts_with ((x # a @ rel_open) @ ?rest) rel_open
               = starts_with (x # a @ rel_open) rel_open"
      by (rule starts_with_append)
    then have "\<not> starts_with ((x # a @ rel_open) @ ?rest) rel_open"
      using False by simp
    then show ?thesis using ih by (simp add: drop_prefix_eq)
  next
    case True
    let ?t0 = "drop (length rel_open) (x # a @ rel_open)"
    have n: "CHR 0x22 \<notin> set (first_line ?t0)"
      using Cons.prems True exec_rel_None [of "x # a @ rel_open"] by simp
    have "?t0 \<noteq> []" by simp
    moreover have "last (x # a @ rel_open) = CHR 0x22" by (simp add: rel_open_def)
    ultimately have "last ?t0 = CHR 0x22" by (simp add: last_drop)
    then have m: "CHR 0x22 \<in> set ?t0" using \<open>?t0 \<noteq> []\<close> last_in_set by metis
    have e1: "drop (length rel_open) ((x # a @ rel_open) @ ?rest) = ?t0 @ ?rest"
      by (rule drop_append_le) simp
    have e2: "first_line (?t0 @ ?rest) = first_line ?t0"
      using n m by (rule first_line_cut)
    have "CHR 0x22 \<notin> set (first_line (drop (length rel_open) ((x # a @ rel_open) @ ?rest)))"
      unfolding e1 e2 by (rule n)
    then have "greedy_until (CHR 0x22) (drop (length rel_open) ((x # a @ rel_open) @ ?rest)) = None"
      using greedy_until_None by blast
    then show ?thesis using ih by (simp add: drop_prefix_eq)
  qed
qed

lemma trim_render: "well_formed e \<Longrightarrow> trim (render e) = entry_core e @ rtrim (trail e)"
proof -
  assume w: "well_formed e"
  have "trim (lead e @ entry_core e @ trail e) = entry_core e @ rtrim (trail e)"
    using w by (intro trim_padded) (auto simp: well_formed_def entry_core_def is_space_def)
  then show ?thesis by (simp add: render_def)
qed

lemma exec_rel_entry:
  assumes "well_formed e"
  shows "exec_rel (entry_core e @ rtrim (trail e)) = Some (relation e)"
proof -
  let ?a = "''<'' @ target e @ ''>'' @ params e"
  from assms have "\<not> quoted_rel_in (''<'' @ target e @ ''>'' @ params e @ rel_open)"
    unfolding well_formed_def by blast
  then have "\<not> quoted_rel_in (?a @ rel_open)"
    by (simp del: quoted_rel_in.simps)
  then have "exec_rel (?a @ rel_open) = None"
    using exec_rel_None by blast
  moreover have "list_all (\<lambda>c. \<not> line_terminator c) (relation e)"
    using assms by (simp add: well_formed_def)
  moreover have "CHR 0x22 \<notin> set (first_line (rtrim (trail e)))"
    using assms first_line_rtrim [of "[]" "trail e"] by (auto simp: well_formed_def)
  ultimately have "exec_rel (?a @ rel_open @ relation e @ CHR 0x22 # rtrim (trail e))
                   = Some (relation e)"
    by (rule exec_rel_attribute)
  then show ?thesis by (simp add: entry_core_def)
qed

lemma exec_source_entry:
  assumes "well_formed e"
  shows "exec_source (entry_core e @ rtrim (trail e)) = Some (target e)"
proof -
  let ?x = "params e @ rel_open @ relation e @ [CHR 0x22]"
  have "set (first_line (?x @ rtrim (trail e))) \<subseteq> set (first_line (?x @ trail e))"
    by (rule first_line_rtrim)
  then have "CHR ''>'' \<notin> set (first_line (?x @ rtrim (trail e)))"
    using assms by (auto simp: well_formed_def)
  moreover have "list_all (\<lambda>c. \<not> line_terminator c) (target e)"
    using assms by (simp add: well_formed_def)
  moreover have "\<not> line_terminator (CHR ''>'')" by (simp add: line_terminator_def)
  ultimately have "greedy_until (CHR ''>'') (target e @ CHR ''>'' # ?x @ rtrim (trail e))
                   = Some (target e)"
    by (intro greedy_until_first_line)
  then show ?thesis by (simp add: exec_source_def entry_core_def)
qed

text \<open>On well-formed entries the loop adds one link per entry, a later entry winning.\<close>

lemma parse_entries_well_formed:
  "list_all well_formed es \<Longrightarrow>
   parse_entries (map render es) result = Inr (fold add_link es result)"
proof (induction es arbitrary: result)
  case Nil
  then show ?case by simp
next
  case (Cons e es)
  then have w: "well_formed e" and ws: "list_all well_formed es" by simp_all
  have s: "set_prop result (relation e) (target e) = add_link e result"
    using w by (simp add: set_prop_def well_formed_def add_link_def)
  have "parse_entries (map render (e # es)) result =
        parse_entries (map render es) (set_prop result (relation e) (target e))"
    using w by (simp add: trim_render exec_rel_entry exec_source_entry)
  also have "\<dots> = Inr (fold add_link es (add_link e result))"
    unfolding s using ws by (rule Cons.IH)
  finally show ?case by simp
qed

lemma fold_add_link_other:
  "k \<notin> relation ` set es \<Longrightarrow> fold add_link es m k = m k"
  by (induction es arbitrary: m) (auto simp: add_link_def)

lemma fold_add_link_lookup:
  "distinct (map relation es) \<Longrightarrow> e \<in> set es \<Longrightarrow>
   fold add_link es m (relation e) = Some (target e)"
proof (induction es arbitrary: m)
  case Nil
  then show ?case by simp
next
  case (Cons x xs)
  show ?case
  proof (cases "e = x")
    case True
    with Cons.prems have "relation x \<notin> relation ` set xs" by simp
    then have "fold add_link xs (add_link x m) (relation x) = add_link x m (relation x)"
      by (rule fold_add_link_other)
    moreover have "add_link x m (relation x) = Some (target x)"
      by (simp add: add_link_def)
    ultimately show ?thesis using True by simp
  next
    case False
    with Cons.prems have "distinct (map relation xs)" "e \<in> set xs" by simp_all
    then have "fold add_link xs (add_link x m) (relation e) = Some (target e)"
      by (rule Cons.IH)
    then show ?thesis by simp
  qed
qed

lemma fold_add_link_dom:
  "dom (fold add_link es m) = dom m \<union> relation ` set es"
  by (induction es arbitrary: m) (auto simp: add_link_def)

text \<open>
  Headers of entries with an angle-bracketed URL at the start and a quoted rel
  attribute, on which the link set is not one key per entry with the rel name mapped
  to the URL:
  \<^item> two entries with the rel name \<^verbatim>\<open>next\<close> give one key, mapped to the second URL;
  \<^item> a quoted parameter after the attribute becomes part of the key;
  \<^item> a \<^verbatim>\<open>>\<close> after the URL (here in the rel name) becomes part of the URL;
  \<^item> a quoted \<^verbatim>\<open>rel="\<close> before the attribute (here in the URL) starts the key;
  \<^item> the rel name \<^verbatim>\<open>__proto__\<close> gives no key;
  \<^item> a comma in the URL, a line feed in the URL and a line feed in the rel name make
    \<open>parseLinks\<close> throw, as does the header of no entry.
\<close>

theorem parseLinks_entries_counterexample:
  "parseLinks repeated_next = Inr [''next'' \<mapsto> ''b'']
   \<and> card (dom [''next'' \<mapsto> ''b'']) = 1
   \<and> parseLinks (''<a>; rel='' @ [CHR 0x22] @ ''next'' @ [CHR 0x22]
                  @ ''; title='' @ [CHR 0x22] @ ''x'' @ [CHR 0x22])
       = Inr [''next'' @ [CHR 0x22] @ ''; title='' @ [CHR 0x22] @ ''x'' \<mapsto> ''a'']
   \<and> parseLinks (''<a>; rel='' @ [CHR 0x22] @ ''x>y'' @ [CHR 0x22])
       = Inr [''x>y'' \<mapsto> ''a>; rel='' @ [CHR 0x22] @ ''x'']
   \<and> parseLinks (''<a?rel='' @ [CHR 0x22] @ ''b>; rel='' @ [CHR 0x22] @ ''next'' @ [CHR 0x22])
       = Inr [''b>; rel='' @ [CHR 0x22] @ ''next'' \<mapsto> ''a?rel='' @ [CHR 0x22] @ ''b'']
   \<and> parseLinks (''<a>; rel='' @ [CHR 0x22] @ ''__proto__'' @ [CHR 0x22]) = Inr Map.empty
   \<and> parseLinks (''<a,b>; rel='' @ [CHR 0x22] @ ''next'' @ [CHR 0x22]) = Inl null_index_error
   \<and> parseLinks (''<a'' @ [CHR 0x0A] @ ''b>; rel='' @ [CHR 0x22] @ ''next'' @ [CHR 0x22])
       = Inl null_index_error
   \<and> parseLinks (''<a>; rel='' @ [CHR 0x22] @ ''ne'' @ [CHR 0x0A] @ ''xt'' @ [CHR 0x22])
       = Inl null_index_error
   \<and> parseLinks [] = Inl null_index_error"
  by (simp add: repeated_next_def parseLinks_def trim_def is_space_def rel_open_def
      greedy_until_def line_terminator_def exec_source_def set_prop_def)

text \<open>
  C4, amended. For a header of \<open>N \<ge> 1\<close> comma-separated well-formed entries whose rel
  names are pairwise distinct, \<open>parseLinks\<close> returns a link set with exactly \<open>N\<close> keys,
  in which the rel name of each entry maps to the URL between its angle brackets.
\<close>

theorem parseLinks_well_formed_entries:
  assumes "es \<noteq> []" and "list_all well_formed es" and "distinct (map relation es)"
  shows "\<exists>links. parseLinks (join_with '','' (map render es)) = Inr links
           \<and> card (dom links) = length es
           \<and> (\<forall>e \<in> set es. links (relation e) = Some (target e))"
proof -
  let ?links = "fold add_link es Map.empty"
  have "\<forall>s \<in> set (map render es). CHR '','' \<notin> set s"
    using assms(2) by (auto simp: list_all_iff well_formed_def)
  moreover have "map render es \<noteq> []" using assms(1) by simp
  ultimately have "split_on (CHR '','') (join_with [CHR '',''] (map render es)) = map render es"
    by (intro split_on_join)
  moreover have "parse_entries (map render es) Map.empty = Inr ?links"
    using assms(2) by (rule parse_entries_well_formed)
  ultimately have 1: "parseLinks (join_with '','' (map render es)) = Inr ?links"
    by (simp only: parseLinks_def)
  have "card (dom ?links) = card (set (map relation es))"
    by (simp add: fold_add_link_dom)
  also have "\<dots> = length es"
    using assms(3) distinct_card [of "map relation es"] by simp
  finally have 2: "card (dom ?links) = length es" .
  have 3: "\<forall>e \<in> set es. ?links (relation e) = Some (target e)"
    using assms(3) fold_add_link_lookup by blast
  from 1 2 3 show ?thesis by blast
qed

theorem parseLinks_well_formed_entries_witness:
  "\<exists>links. parseLinks annotated_header = Inr links \<and> card (dom links) = 2
     \<and> links ''next'' = Some ''https://api.github.com/user/repos?page=3&per_page=100''
     \<and> links ''last'' = Some ''https://api.github.com/user/repos?page=50&per_page=100''"
proof -
  let ?e1 = "\<lparr> lead = [], target = ''https://api.github.com/user/repos?page=3&per_page=100'',
               params = ''; title='' @ [CHR 0x22] @ ''x'' @ [CHR 0x22] @ ''; '',
               relation = ''next'', trail = [] \<rparr>"
  let ?e2 = "\<lparr> lead = '' '', target = ''https://api.github.com/user/repos?page=50&per_page=100'',
               params = ''; '', relation = ''last'', trail = ''; foo=bar '' \<rparr>"
  have h: "join_with '','' (map render [?e1, ?e2]) = annotated_header"
    by (simp add: render_def entry_core_def annotated_header_def rel_open_def)
  have w: "list_all well_formed [?e1, ?e2]"
    by (simp add: well_formed_def is_space_def line_terminator_def first_line_def render_def
        entry_core_def rel_open_def)
  have d: "distinct (map relation [?e1, ?e2])" by simp
  have "[?e1, ?e2] \<noteq> []" by simp
  then obtain links where l: "parseLinks (join_with '','' (map render [?e1, ?e2])) = Inr links"
    "card (dom links) = length [?e1, ?e2]"
    "\<forall>e \<in> set [?e1, ?e2]. links (relation e) = Some (target e)"
    using parseLinks_well_formed_entries [OF _ w d] by blast
  from l(1) have "parseLinks annotated_header = Inr links" by (simp only: h)
  moreover from l(2) have "card (dom links) = 2" by simp
  moreover from l(3) have
    "links ''next'' = Some ''https://api.github.com/user/repos?page=3&per_page=100''"
    "links ''last'' = Some ''https://api.github.com/user/repos?page=50&per_page=100''"
    by simp_all
  ultimately show ?thesis by blast
qed

end
